theory Spec2Isabelle
  imports Main
begin

section \<open>JavaScript values and the object store\<close>

text \<open>
  The publish command of \<^verbatim>\<open>tools/src/commands/PublishPackages.ts\<close> hands five hooks to the
  task runner: \<^verbatim>\<open>validateBackup\<close>, \<^verbatim>\<open>shouldUseBackup\<close>, \<^verbatim>\<open>createBackupData\<close>,
  \<^verbatim>\<open>restoreBackup\<close> and \<^verbatim>\<open>backupValidationFailed\<close>. The state bags of the parcels are
  mutable JavaScript objects, and two of the properties below are about which objects the
  live parcels and a backup document share. The bags therefore live in an explicit store:
  an object is named by its address, a value is a primitive or a reference to an object.

  Numbers are integers here; the bags the tasks fill hold versions, flags, lists and
  nested records. An object is the list of its own properties in the order JavaScript
  enumerates them: the keys that are array indices first, in ascending numeric order, then
  the other keys in the order they were added. Prototypes are not part of an object here;
  own properties are all that spreading, \<^verbatim>\<open>Object.entries\<close> and \<^verbatim>\<open>JSON.stringify\<close> look at.
\<close>

type_synonym addr = nat

datatype jsval =
    VUndefined
  | VNull
  | VBool bool
  | VNum int
  | VStr string
  | VRef addr

datatype jsobj =
    Object "(string \<times> jsval) list"
  | Array "jsval list"

type_synonym heap = "jsobj list"

datatype error = TypeError | SyntaxError

text \<open>The store is a list; an object's address is its index, and a new object goes to the end.\<close>

definition heap_lookup :: "heap \<Rightarrow> addr \<Rightarrow> jsobj option" where
  "heap_lookup h a = (if a < length h then Some (h ! a) else None)"

definition alloc :: "heap \<Rightarrow> jsobj \<Rightarrow> addr \<times> heap" where
  "alloc h ob = (length h, h @ [ob])"

text \<open>JavaScript's truthiness: \<^verbatim>\<open>undefined\<close>, \<^verbatim>\<open>null\<close>, \<^verbatim>\<open>false\<close>, \<^verbatim>\<open>0\<close> and the empty
  string are falsy, every object is truthy.\<close>

fun truthy :: "jsval \<Rightarrow> bool" where
  "truthy VUndefined = False"
| "truthy VNull = False"
| "truthy (VBool b) = b"
| "truthy (VNum n) = (n \<noteq> 0)"
| "truthy (VStr s) = (s \<noteq> [])"
| "truthy (VRef a) = True"

text \<open>Decimal digits of a number and back. A key is an array index when it is the decimal
  form of a number below \<open>2^32 - 1\<close>.\<close>

fun showNat :: "nat \<Rightarrow> string" where
  "showNat n = (if n < 10 then [char_of (48 + n)] else showNat (n div 10) @ [char_of (48 + n mod 10)])"

declare showNat.simps [simp del]

definition readNat :: "string \<Rightarrow> nat" where
  "readNat s = foldl (\<lambda>acc c. 10 * acc + (of_char c - 48)) 0 s"

definition array_index :: "string \<Rightarrow> nat option" where
  "array_index k =
     (if showNat (readNat k) = k \<and> readNat k < 4294967295 then Some (readNat k) else None)"

text \<open>\<open>goes_before k k'\<close>: a new key \<open>k\<close> is enumerated before the existing key \<open>k'\<close>. That
  is so only for an array index, before every key that is not one and before every larger
  index. \<open>key_order\<close> is the order of two neighbours in an enumeration.\<close>

definition goes_before :: "string \<Rightarrow> string \<Rightarrow> bool" where
  "goes_before k k' =
     (case array_index k of
        None \<Rightarrow> False
      | Some n \<Rightarrow> (case array_index k' of None \<Rightarrow> True | Some m \<Rightarrow> n < m))"

definition key_order :: "string \<Rightarrow> string \<Rightarrow> bool" where
  "key_order k k' = (k \<noteq> k' \<and> \<not> goes_before k' k)"

fun insert_prop :: "(string \<times> jsval) list \<Rightarrow> string \<Rightarrow> jsval \<Rightarrow> (string \<times> jsval) list" where
  "insert_prop [] k v = [(k, v)]"
| "insert_prop ((k', v') # ps) k v =
     (if goes_before k k' then (k, v) # (k', v') # ps else (k', v') # insert_prop ps k v)"

fun update_prop :: "(string \<times> jsval) list \<Rightarrow> string \<Rightarrow> jsval \<Rightarrow> (string \<times> jsval) list" where
  "update_prop [] k v = []"
| "update_prop ((k', v') # ps) k v =
     (if k' = k then (k, v) # ps else (k', v') # update_prop ps k v)"

text \<open>Defining an own data property, as object spread and \<^verbatim>\<open>JSON.parse\<close> do for every key,
  and as an assignment does for an ordinary key: an existing property keeps its place and
  takes the new value, a new one takes its place in the enumeration.\<close>

definition obj_set :: "(string \<times> jsval) list \<Rightarrow> string \<Rightarrow> jsval \<Rightarrow> (string \<times> jsval) list" where
  "obj_set ps k v = (if k \<in> fst ` set ps then update_prop ps k v else insert_prop ps k v)"

text \<open>The assignment \<^verbatim>\<open>obj[k] = v\<close> on an object literal. For the key \<^verbatim>\<open>__proto__\<close> it runs
  the setter the object inherits, which changes the prototype and adds no own property.\<close>

definition member_assign :: "(string \<times> jsval) list \<Rightarrow> string \<Rightarrow> jsval \<Rightarrow> (string \<times> jsval) list" where
  "member_assign ps k v = (if k = ''__proto__'' then ps else obj_set ps k v)"

text \<open>Copying own properties one by one, as object spread and \<^verbatim>\<open>Object.assign\<close> do.\<close>

fun assign_props :: "(string \<times> jsval) list \<Rightarrow> (string \<times> jsval) list \<Rightarrow> (string \<times> jsval) list" where
  "assign_props tgt [] = tgt"
| "assign_props tgt ((k, v) # ps) = assign_props (obj_set tgt k v) ps"

text \<open>The own properties of an array or of a string: one for every index.\<close>

definition indexed :: "jsval list \<Rightarrow> (string \<times> jsval) list" where
  "indexed vs = map (\<lambda>(i, v). (showNat i, v)) (enumerate 0 vs)"

text \<open>The own enumerable properties \<^verbatim>\<open>{...v}\<close> copies: those of the object a reference
  points to (index keys for an array), the characters of a string, nothing for the other
  primitives. An address outside the store does not occur in a well-formed store; it reads
  as an object without properties.\<close>

definition own_props :: "heap \<Rightarrow> jsval \<Rightarrow> (string \<times> jsval) list" where
  "own_props h v =
     (case v of
        VRef a \<Rightarrow>
          (case heap_lookup h a of
             None \<Rightarrow> []
           | Some (Object ps) \<Rightarrow> ps
           | Some (Array vs) \<Rightarrow> indexed vs)
      | VStr s \<Rightarrow> indexed (map (\<lambda>c. VStr [c]) s)
      | _ \<Rightarrow> [])"

section \<open>JSON.stringify and JSON.parse\<close>

text \<open>
  \<^verbatim>\<open>JSON.stringify\<close> writes a text and \<^verbatim>\<open>JSON.parse\<close> reads it back; the model keeps the
  tree the text denotes. An object's property whose value is \<^verbatim>\<open>undefined\<close> is left out,
  an \<^verbatim>\<open>undefined\<close> array element is written \<^verbatim>\<open>null\<close>, and \<^verbatim>\<open>JSON.stringify(undefined)\<close>
  is \<^verbatim>\<open>undefined\<close> (\<open>None\<close>). The serializer keeps the stack of objects it is inside of and
  throws a \<^verbatim>\<open>TypeError\<close> when it meets one of them again (a cyclic structure).
\<close>

datatype json =
    JNull
  | JBool bool
  | JNum int
  | JStr string
  | JArr "json list"
  | JObj "(string \<times> json) list"

function stringify_val :: "heap \<Rightarrow> addr list \<Rightarrow> jsval \<Rightarrow> error + json option"
  and stringify_props :: "heap \<Rightarrow> addr list \<Rightarrow> (string \<times> jsval) list \<Rightarrow> error + (string \<times> json) list"
  and stringify_elems :: "heap \<Rightarrow> addr list \<Rightarrow> jsval list \<Rightarrow> error + json list"
where
  "stringify_val h st VUndefined = Inr None"
| "stringify_val h st VNull = Inr (Some JNull)"
| "stringify_val h st (VBool b) = Inr (Some (JBool b))"
| "stringify_val h st (VNum n) = Inr (Some (JNum n))"
| "stringify_val h st (VStr s) = Inr (Some (JStr s))"
| "stringify_val h st (VRef a) =
     (if a \<in> set st then Inl TypeError
      else if a < length h then
        (case h ! a of
           Object ps \<Rightarrow>
             (case stringify_props h (a # st) ps of
                Inl e \<Rightarrow> Inl e
              | Inr js \<Rightarrow> Inr (Some (JObj js)))
         | Array vs \<Rightarrow>
             (case stringify_elems h (a # st) vs of
                Inl e \<Rightarrow> Inl e
              | Inr js \<Rightarrow> Inr (Some (JArr js))))
      else Inr (Some (JObj [])))"
| "stringify_props h st [] = Inr []"
| "stringify_props h st ((k, v) # ps) =
     (case stringify_val h st v of
        Inl e \<Rightarrow> Inl e
      | Inr None \<Rightarrow> stringify_props h st ps
      | Inr (Some j) \<Rightarrow>
          (case stringify_props h st ps of
             Inl e \<Rightarrow> Inl e
           | Inr js \<Rightarrow> Inr ((k, j) # js)))"
| "stringify_elems h st [] = Inr []"
| "stringify_elems h st (v # vs) =
     (case stringify_val h st v of
        Inl e \<Rightarrow> Inl e
      | Inr r \<Rightarrow>
          (case stringify_elems h st vs of
             Inl e \<Rightarrow> Inl e
           | Inr js \<Rightarrow> Inr ((case r of None \<Rightarrow> JNull | Some j \<Rightarrow> j) # js)))"
  by pat_completeness auto

lemma unvisited_left:
  "a < n \<Longrightarrow> a \<notin> set st \<Longrightarrow> 0 < card ({..<n::nat} - set st)"
  by (auto simp: card_gt_0_iff)

termination stringify_val
  by (relation "measures
        [\<lambda>x. case x of
               Inl (h, st, v) \<Rightarrow> card ({..<length h} - set st)
             | Inr (Inl (h, st, ps)) \<Rightarrow> card ({..<length h} - set st)
             | Inr (Inr (h, st, vs)) \<Rightarrow> card ({..<length h} - set st),
         \<lambda>x. case x of
               Inl (h, st, v) \<Rightarrow> 0
             | Inr (Inl (h, st, ps)) \<Rightarrow> Suc (length ps)
             | Inr (Inr (h, st, vs)) \<Rightarrow> Suc (length vs)]")
     (auto simp: unvisited_left)

text \<open>\<^verbatim>\<open>JSON.parse\<close> builds new objects only: the children first, then the object holding them.
  A key that occurs twice in the text keeps its first place and its last value.\<close>

fun build :: "json \<Rightarrow> heap \<Rightarrow> jsval \<times> heap"
  and build_props :: "(string \<times> json) list \<Rightarrow> (string \<times> jsval) list \<Rightarrow> heap \<Rightarrow> (string \<times> jsval) list \<times> heap"
  and build_elems :: "json list \<Rightarrow> heap \<Rightarrow> jsval list \<times> heap"
where
  "build JNull h = (VNull, h)"
| "build (JBool b) h = (VBool b, h)"
| "build (JNum n) h = (VNum n, h)"
| "build (JStr s) h = (VStr s, h)"
| "build (JArr js) h =
     (case build_elems js h of (vs, h1) \<Rightarrow> (VRef (length h1), h1 @ [Array vs]))"
| "build (JObj ps) h =
     (case build_props ps [] h of (props, h1) \<Rightarrow> (VRef (length h1), h1 @ [Object props]))"
| "build_props [] acc h = (acc, h)"
| "build_props ((k, j) # ps) acc h =
     (case build j h of (v, h1) \<Rightarrow> build_props ps (obj_set acc k v) h1)"
| "build_elems [] h = ([], h)"
| "build_elems (j # js) h =
     (case build j h of (v, h1) \<Rightarrow>
        (case build_elems js h1 of (vs, h2) \<Rightarrow> (v # vs, h2)))"

text \<open>\<^verbatim>\<open>JSON.parse(JSON.stringify(v))\<close>. \<^verbatim>\<open>JSON.parse(undefined)\<close> is a \<^verbatim>\<open>SyntaxError\<close>.\<close>

definition clone :: "heap \<Rightarrow> jsval \<Rightarrow> error + (jsval \<times> heap)" where
  "clone h v =
     (case stringify_val h [] v of
        Inl e \<Rightarrow> Inl e
      | Inr None \<Rightarrow> Inl SyntaxError
      | Inr (Some j) \<Rightarrow> Inr (build j h))"

section \<open>The data of the publish command\<close>

text \<open>
  The options object commander fills from the flags declared in the command, and the
  \<^verbatim>\<open>packageNames\<close> field \<^verbatim>\<open>main\<close> adds to it. \<^verbatim>\<open>--prerelease\<close> takes an optional
  identifier, so its value is a boolean or a string; \<^verbatim>\<open>--commit-message\<close> has no default.
\<close>

datatype bool_or_string = BoolOpt bool | StrOpt string

record CommandOptions =
  packageNames :: "string list option"
  prerelease :: bool_or_string
  tag :: string
  retry :: bool
  commitMessage :: "string option"
  force :: bool
  deps :: bool
  listUnpublished :: bool
  grantAccess :: bool
  checkIntegrity :: bool
  canary :: bool
  skipRepoChecks :: bool
  dry :: bool

text \<open>The five task instances \<^verbatim>\<open>tasksForOptions\<close> chooses from.\<close>

datatype Task =
    Task_listUnpublished
  | Task_grantTeamAccessToPackages
  | Task_checkPackagesIntegrity
  | Task_publishCanaryPipeline
  | Task_publishPackagesPipeline

text \<open>
  A parcel, as far as the command reads it: \<^verbatim>\<open>pkg.packageName\<close> and the reference to its
  state bag. Parcels are objects too: the array the hooks are given holds references to
  them, and \<^verbatim>\<open>getCachedParcel\<close> hands out the same object every time it is asked for the same
  node. A parcel is therefore named by an identity, and the parcels themselves are kept in
  a store of their own.
\<close>

type_synonym pid = nat

record Parcel =
  pkg_packageName :: string
  state :: jsval

text \<open>The backup document of the task runner. Its \<^verbatim>\<open>data\<close> may be missing, which the code
  tests for; \<^verbatim>\<open>data.options\<close> is whatever \<^verbatim>\<open>pickBackupableOptions\<close> returns (type \<open>'o\<close>),
  \<^verbatim>\<open>data.state\<close> is an object from package names to state bags, kept as its property list.\<close>

datatype 'a nullable = Undefined | Null | Present 'a

record 'o PublishBackupData =
  bd_options :: 'o
  bd_head :: string
  bd_state :: "(string \<times> jsval) list"

record 'o TasksRunnerBackup =
  timestamp :: int
  data :: "'o PublishBackupData nullable"

text \<open>What the logger is given: the restore notice carries the backup's timestamp (the
  code prints it as a local date), the warning is a fixed text.\<close>

datatype message =
    RestoringFromBackup int
  | FoundBackupWithDifferentOptions
  | BackupNotUsedWithoutRetry

datatype log_entry = Info message | Warn message

text \<open>
  The state the hooks share: the options object \<^verbatim>\<open>main\<close> received and the closures
  captured, the head commit of the repository (what \<^verbatim>\<open>Git.getHeadCommitHashAsync\<close> answers),
  the parcel objects, the object store, and what has been logged.
\<close>

record world =
  w_options :: CommandOptions
  w_head :: string
  w_parcels :: "pid \<Rightarrow> Parcel"
  w_heap :: heap
  w_log :: "log_entry list"

section \<open>The command\<close>

text \<open>\<^verbatim>\<open>tasksForOptions\<close>: the first of the exclusive flags that is set decides.\<close>

definition tasksForOptions :: "CommandOptions \<Rightarrow> Task list" where
  "tasksForOptions opts =
     (if listUnpublished opts then [Task_listUnpublished]
      else if grantAccess opts then [Task_grantTeamAccessToPackages]
      else if checkIntegrity opts then [Task_checkPackagesIntegrity]
      else if canary opts then [Task_publishCanaryPipeline]
      else [Task_publishPackagesPipeline])"

text \<open>Reading a member of the backup's \<^verbatim>\<open>data\<close>; on a missing payload that is a
  \<^verbatim>\<open>TypeError\<close>.\<close>

fun data_head :: "'o PublishBackupData nullable \<Rightarrow> error + string" where
  "data_head (Present d) = Inr (bd_head d)"
| "data_head _ = Inl TypeError"

fun data_options :: "'o PublishBackupData nullable \<Rightarrow> error + 'o" where
  "data_options (Present d) = Inr (bd_options d)"
| "data_options _ = Inl TypeError"

fun data_state :: "'o PublishBackupData nullable \<Rightarrow> error + (string \<times> jsval) list" where
  "data_state (Present d) = Inr (bd_state d)"
| "data_state _ = Inl TypeError"

text \<open>
  \<^verbatim>\<open>validateBackup\<close>. The two collaborators that are not in this file are parameters:
  \<open>pick\<close> is \<^verbatim>\<open>pickBackupableOptions\<close> and \<open>diff\<close> is \<^verbatim>\<open>jsondiffpatch.diff\<close>, whose result is
  \<^verbatim>\<open>undefined\<close> (\<open>None\<close>) when it finds no difference and a delta object otherwise.
  \<^verbatim>\<open>a && b && c\<close> yields the first falsy operand and evaluates nothing after it, so a
  missing \<^verbatim>\<open>backup.data\<close> is the result itself and its members are never read.
\<close>

definition validateBackup ::
  "(CommandOptions \<Rightarrow> 'o) \<Rightarrow> ('o \<Rightarrow> 'o \<Rightarrow> 'd option) \<Rightarrow> 'o TasksRunnerBackup \<Rightarrow> world
    \<Rightarrow> (error + jsval) \<times> world" where
  "validateBackup pick diff backup w =
     (let headCommitHash = w_head w in
      (case data backup of
         Undefined \<Rightarrow> Inr VUndefined
       | Null \<Rightarrow> Inr VNull
       | Present _ \<Rightarrow>
           (case data_head (data backup) of
              Inl e \<Rightarrow> Inl e
            | Inr savedHead \<Rightarrow>
                if headCommitHash = savedHead then
                  (case data_options (data backup) of
                     Inl e \<Rightarrow> Inl e
                   | Inr os \<Rightarrow>
                       (case diff (pick (w_options w)) os of
                          None \<Rightarrow> Inr (VBool True)
                        | Some delta \<Rightarrow> Inr (VBool False)))
                else Inr (VBool False)),
       w))"

text \<open>
  \<^verbatim>\<open>shouldUseBackup\<close> passes the options object to \<^verbatim>\<open>shouldUseBackupAsync\<close>, a helper of
  \<^verbatim>\<open>publish-packages/helpers\<close> that is not in this file. It is a parameter that may do to
  the world what it likes.
\<close>

definition shouldUseBackup ::
  "(CommandOptions \<Rightarrow> world \<Rightarrow> bool \<times> world) \<Rightarrow> world \<Rightarrow> bool \<times> world" where
  "shouldUseBackup shouldUseBackupAsync w = shouldUseBackupAsync (w_options w) w"

text \<open>
  \<^verbatim>\<open>createBackupData\<close>. The loop reads \<^verbatim>\<open>pkg\<close> and \<^verbatim>\<open>state\<close> of each parcel of the array,
  clones the state bag through JSON and assigns the clone to \<^verbatim>\<open>data.state[pkg.packageName]\<close>;
  a bag that cannot be serialized makes the whole hook throw. The \<open>opts\<close> here is the hook's
  own third argument.
\<close>

fun createBackupData_loop ::
  "(pid \<Rightarrow> Parcel) \<Rightarrow> pid list \<Rightarrow> (string \<times> jsval) list \<Rightarrow> heap
    \<Rightarrow> (error + (string \<times> jsval) list) \<times> heap" where
  "createBackupData_loop store [] st h = (Inr st, h)"
| "createBackupData_loop store (p # ps) st h =
     (case clone h (state (store p)) of
        Inl e \<Rightarrow> (Inl e, h)
      | Inr (v, h1) \<Rightarrow>
          createBackupData_loop store ps (member_assign st (pkg_packageName (store p)) v) h1)"

definition createBackupData ::
  "(CommandOptions \<Rightarrow> 'o) \<Rightarrow> Task \<Rightarrow> pid list \<Rightarrow> CommandOptions \<Rightarrow> world
    \<Rightarrow> (error + 'o PublishBackupData) \<times> world" where
  "createBackupData pick task parcels opts w =
     (let picked = pick opts; headCommitHash = w_head w in
      (case createBackupData_loop (w_parcels w) parcels [] (w_heap w) of
         (Inl e, h) \<Rightarrow> (Inl e, w\<lparr>w_heap := h\<rparr>)
       | (Inr st, h) \<Rightarrow>
           (Inr \<lparr>bd_options = picked, bd_head = headCommitHash, bd_state = st\<rparr>, w\<lparr>w_heap := h\<rparr>)))"

text \<open>
  \<^verbatim>\<open>restoreBackup\<close>. \<open>getNode\<close> is the lookup in the graph of the current packages and
  \<open>getCachedParcel\<close> answers with the parcel object of a node; both are collaborators outside
  this file (a parcel the cache would build on first use is taken to be in the store
  already). For every entry of the backup's state whose package still exists,
  \<^verbatim>\<open>{ ...parcel.state, ...restoredState }\<close> creates one new object with the properties of the
  parcel's state and then those of the restored bag, the \<^verbatim>\<open>state\<close> of that parcel object is
  pointed at it, and the reference to the parcel is pushed. An entry of the array that is
  the same parcel object sees the new state too, and a parcel that two names resolve to is
  merged twice.
\<close>

definition spread2 :: "heap \<Rightarrow> jsval \<Rightarrow> jsval \<Rightarrow> (string \<times> jsval) list" where
  "spread2 h a b = assign_props (assign_props [] (own_props h a)) (own_props h b)"

fun restoreBackup_loop ::
  "(string \<Rightarrow> 'n option) \<Rightarrow> ('n \<Rightarrow> pid) \<Rightarrow> (string \<times> jsval) list \<Rightarrow> pid list \<Rightarrow> (pid \<Rightarrow> Parcel)
    \<Rightarrow> heap \<Rightarrow> pid list \<times> (pid \<Rightarrow> Parcel) \<times> heap" where
  "restoreBackup_loop getNode getCachedParcel [] parcels store h = (parcels, store, h)"
| "restoreBackup_loop getNode getCachedParcel ((name, restoredState) # es) parcels store h =
     (case getNode name of
        None \<Rightarrow> restoreBackup_loop getNode getCachedParcel es parcels store h
      | Some node \<Rightarrow>
          (let parcel = getCachedParcel node;
               (a, h1) = alloc h (Object (spread2 h (state (store parcel)) restoredState))
           in restoreBackup_loop getNode getCachedParcel es (parcels @ [parcel])
                (store(parcel := (store parcel)\<lparr>state := VRef a\<rparr>)) h1))"

definition restoreBackup ::
  "(string \<Rightarrow> 'n option) \<Rightarrow> ('n \<Rightarrow> pid) \<Rightarrow> 'o TasksRunnerBackup \<Rightarrow> pid list \<Rightarrow> world
    \<Rightarrow> (error + pid list) \<times> world" where
  "restoreBackup getNode getCachedParcel backup parcels w =
     (let w1 = w\<lparr>w_log := w_log w @ [Info (RestoringFromBackup (timestamp backup))]\<rparr> in
      (case data_state (data backup) of
         Inl e \<Rightarrow> (Inl e, w1)
       | Inr entries \<Rightarrow>
           (case restoreBackup_loop getNode getCachedParcel entries parcels (w_parcels w1) (w_heap w1) of
              (parcels', store, h) \<Rightarrow> (Inr parcels', w1\<lparr>w_parcels := store, w_heap := h\<rparr>))))"

text \<open>\<^verbatim>\<open>backupValidationFailed\<close> logs one warning.\<close>

definition backupValidationFailed :: "world \<Rightarrow> world" where
  "backupValidationFailed w = w\<lparr>w_log := w_log w @ [Warn FoundBackupWithDifferentOptions]\<rparr>"

text \<open>
  The task runner, \<^verbatim>\<open>TaskRunner.runAndExitAsync\<close>, and the tasks are not in this file.
  Whatever the runner does, what it can run of this command are the five hooks it was
  given and the tasks, with arguments of its choice. An \<open>invocation\<close> is one such call and
  \<open>invoke\<close> carries it out; \<open>runTask\<close> stands for the tasks, which are handed the parcels
  and the options object and may do to the world what they like. A hook that throws
  leaves the world as it is at that point.
\<close>

datatype 'o invocation =
    Call_validateBackup "'o TasksRunnerBackup"
  | Call_shouldUseBackup
  | Call_createBackupData Task "pid list" CommandOptions
  | Call_restoreBackup "'o TasksRunnerBackup" "pid list"
  | Call_backupValidationFailed
  | Run_task Task "pid list"

fun invoke ::
  "(CommandOptions \<Rightarrow> 'o) \<Rightarrow> ('o \<Rightarrow> 'o \<Rightarrow> 'd option) \<Rightarrow> (CommandOptions \<Rightarrow> world \<Rightarrow> bool \<times> world)
    \<Rightarrow> (string \<Rightarrow> 'n option) \<Rightarrow> ('n \<Rightarrow> pid) \<Rightarrow> (Task \<Rightarrow> pid list \<Rightarrow> CommandOptions \<Rightarrow> world \<Rightarrow> world)
    \<Rightarrow> 'o invocation \<Rightarrow> world \<Rightarrow> world" where
  "invoke pick diff shouldUseBackupAsync getNode getCachedParcel runTask (Call_validateBackup backup) w =
     snd (validateBackup pick diff backup w)"
| "invoke pick diff shouldUseBackupAsync getNode getCachedParcel runTask Call_shouldUseBackup w =
     snd (shouldUseBackup shouldUseBackupAsync w)"
| "invoke pick diff shouldUseBackupAsync getNode getCachedParcel runTask
     (Call_createBackupData task parcels opts) w =
     snd (createBackupData pick task parcels opts w)"
| "invoke pick diff shouldUseBackupAsync getNode getCachedParcel runTask (Call_restoreBackup backup parcels) w =
     snd (restoreBackup getNode getCachedParcel backup parcels w)"
| "invoke pick diff shouldUseBackupAsync getNode getCachedParcel runTask Call_backupValidationFailed w =
     backupValidationFailed w"
| "invoke pick diff shouldUseBackupAsync getNode getCachedParcel runTask (Run_task task parcels) w =
     runTask task parcels (w_options w) w"

text \<open>
  \<^verbatim>\<open>main\<close> stores the package names in the options object, selects the tasks, builds the
  task runner with the hooks above and hands over to it with
  \<^verbatim>\<open>taskRunner.runAndExitAsync([], options)\<close>. \<open>runner\<close> is the sequence of calls the task
  runner makes for the selected tasks; the result is the world the run ends in.
\<close>

definition main ::
  "(CommandOptions \<Rightarrow> 'o) \<Rightarrow> ('o \<Rightarrow> 'o \<Rightarrow> 'd option) \<Rightarrow> (CommandOptions \<Rightarrow> world \<Rightarrow> bool \<times> world)
    \<Rightarrow> (string \<Rightarrow> 'n option) \<Rightarrow> ('n \<Rightarrow> pid) \<Rightarrow> (Task \<Rightarrow> pid list \<Rightarrow> CommandOptions \<Rightarrow> world \<Rightarrow> world)
    \<Rightarrow> (Task list \<Rightarrow> 'o invocation list) \<Rightarrow> string list \<Rightarrow> world \<Rightarrow> world" where
  "main pick diff shouldUseBackupAsync getNode getCachedParcel runTask runner names w =
     (let w1 = w\<lparr>w_options := (w_options w)\<lparr>packageNames := Some names\<rparr>\<rparr>;
          tasks = tasksForOptions (w_options w1)
      in foldl (\<lambda>w' c. invoke pick diff shouldUseBackupAsync getNode getCachedParcel runTask c w')
           w1 (runner tasks))"
section \<open>Well-formed stores, reachability and shape\<close>

text \<open>
  In a well-formed store every reference held by an object points to an object of the
  store, and the properties of every object are in enumeration order, each key once.
  \<open>reach h v\<close> is the set of objects one can get to from the value \<open>v\<close> by following
  references: two values share a mutable object exactly when their \<open>reach\<close> sets meet.
  \<open>region_ok\<close> says the same as \<open>wf_heap\<close> for a block of new objects whose references stay
  inside the block, and \<open>json_ok\<close> that the keys of every object of a JSON tree are in
  enumeration order.
\<close>

fun val_ok :: "nat \<Rightarrow> jsval \<Rightarrow> bool" where
  "val_ok n (VRef a) = (a < n)"
| "val_ok n _ = True"


fun obj_vals :: "jsobj \<Rightarrow> jsval list" where
  "obj_vals (Object ps) = map snd ps"
| "obj_vals (Array vs) = vs"

fun obj_keys_ok :: "jsobj \<Rightarrow> bool" where
  "obj_keys_ok (Object ps) = sorted_wrt key_order (map fst ps)"
| "obj_keys_ok (Array vs) = True"

definition wf_heap :: "heap \<Rightarrow> bool" where
  "wf_heap h = (\<forall>ob \<in> set h. (\<forall>v \<in> set (obj_vals ob). val_ok (length h) v) \<and> obj_keys_ok ob)"


inductive_set reach :: "heap \<Rightarrow> jsval \<Rightarrow> addr set" for h :: heap and v :: jsval where
  root: "v = VRef a \<Longrightarrow> a \<in> reach h v"
| step: "a \<in> reach h v \<Longrightarrow> a < length h \<Longrightarrow> VRef b \<in> set (obj_vals (h ! a)) \<Longrightarrow> b \<in> reach h v"

code_pred reachp .




text \<open>The entries of a backup's state whose package still exists, each with the parcel
  \<open>getCachedParcel\<close> answers with, in the order of the entries.\<close>

fun resolved ::
  "(string \<Rightarrow> 'n option) \<Rightarrow> ('n \<Rightarrow> pid) \<Rightarrow> (string \<times> jsval) list \<Rightarrow> (pid \<times> jsval) list" where
  "resolved getNode getCachedParcel [] = []"
| "resolved getNode getCachedParcel ((name, restoredState) # es) =
     (case getNode name of
        None \<Rightarrow> resolved getNode getCachedParcel es
      | Some node \<Rightarrow> (getCachedParcel node, restoredState) # resolved getNode getCachedParcel es)"

section \<open>Concrete inputs\<close>

text \<open>
  Instances of the collaborators and a small world, for evaluating the theorems below at
  concrete inputs. The theorems themselves hold for every \<open>pick\<close>, \<open>diff\<close>,
  \<open>shouldUseBackupAsync\<close>, \<open>getNode\<close>, \<open>getCachedParcel\<close>, \<open>runTask\<close> and \<open>runner\<close>.
\<close>

text \<open>
  Modelled from the spec: \<^verbatim>\<open>pickBackupableOptions\<close> is defined in
  \<^verbatim>\<open>publish-packages/helpers\<close>, not in this command's file. The spec says that a declared
  subset of the options is checkpoint-relevant and that the flag asking to resume is not in
  it; \<open>pickExample\<close> keeps the package names, the prerelease setting, the tag, the commit
  message and the dry flag. \<open>structuralDiff\<close> stands for \<^verbatim>\<open>jsondiffpatch.diff\<close> as the spec
  describes it, a structural diff: no delta exactly when the two snapshots are equal.
\<close>

definition pickExample ::
  "CommandOptions \<Rightarrow> string list option \<times> bool_or_string \<times> string \<times> string option \<times> bool" where
  "pickExample opts = (packageNames opts, prerelease opts, tag opts, commitMessage opts, dry opts)"

definition structuralDiff :: "'o \<Rightarrow> 'o \<Rightarrow> ('o \<times> 'o) option" where
  "structuralDiff a b = (if a = b then None else Some (a, b))"

text \<open>
  Modelled from the spec: \<^verbatim>\<open>shouldUseBackupAsync\<close> is defined in \<^verbatim>\<open>publish-packages/helpers\<close>
  too. The spec says that a valid backup is used only when the flag asking to resume is
  given, and that otherwise a warning is logged and the backup is left aside.
\<close>

definition exampleShouldUseBackupAsync :: "CommandOptions \<Rightarrow> world \<Rightarrow> bool \<times> world" where
  "exampleShouldUseBackupAsync opts w =
     (if retry opts then (True, w)
      else (False, w\<lparr>w_log := w_log w @ [Warn BackupNotUsedWithoutRetry]\<rparr>))"

text \<open>The options as commander hands them to \<^verbatim>\<open>main\<close>, for \<^verbatim>\<open>et publish expo-av\<close>, and as
  they are once \<^verbatim>\<open>main\<close> has stored the package names.\<close>

definition commanderOptions :: CommandOptions where
  "commanderOptions =
     \<lparr>packageNames = None, prerelease = BoolOpt False, tag = ''next'', retry = False,
      commitMessage = None, force = False, deps = True, listUnpublished = False,
      grantAccess = False, checkIntegrity = False, canary = False, skipRepoChecks = False,
      dry = False\<rparr>"

definition exampleOptions :: CommandOptions where
  "exampleOptions =
     \<lparr>packageNames = Some [''expo-av''], prerelease = BoolOpt False, tag = ''next'', retry = False,
      commitMessage = None, force = False, deps = True, listUnpublished = False,
      grantAccess = False, checkIntegrity = False, canary = False, skipRepoChecks = False,
      dry = False\<rparr>"

text \<open>
  The object store: 0 is the state of the cached parcel of \<^verbatim>\<open>expo-av\<close>; 2, with 1 nested in
  it, and 3 are the bags a backup holds for \<^verbatim>\<open>expo-av\<close> and \<^verbatim>\<open>old-pkg\<close>; 5, with the array 4
  in it, is the state of a live parcel; 6 is a state with an \<^verbatim>\<open>undefined\<close> property. The
  parcel objects: 0 is what the cache has for \<^verbatim>\<open>expo-av\<close>, 1 to 3 are live parcels.
\<close>

definition exampleHeap :: heap where
  "exampleHeap =
     [Object [(''integral'', VBool True)],
      Object [(''from'', VStr ''1.0.0''), (''to'', VStr ''1.1.0'')],
      Object [(''releaseVersion'', VStr ''1.1.0''), (''bump'', VRef 1)],
      Object [(''releaseVersion'', VStr ''0.9.0'')],
      Array [VStr ''fixed a crash''],
      Object [(''releaseVersion'', VStr ''2.0.0''), (''changes'', VRef 4)],
      Object [(''releaseVersion'', VUndefined), (''integral'', VBool False)]]"

definition exampleParcelStore :: "pid \<Rightarrow> Parcel" where
  "exampleParcelStore p =
     (if p = 0 then \<lparr>pkg_packageName = ''expo-av'', state = VRef 0\<rparr>
      else if p = 1 then \<lparr>pkg_packageName = ''expo-gl'', state = VRef 5\<rparr>
      else if p = 2 then \<lparr>pkg_packageName = ''expo-camera'', state = VRef 6\<rparr>
      else \<lparr>pkg_packageName = ''__proto__'', state = VRef 3\<rparr>)"

definition exampleWorld :: world where
  "exampleWorld =
     \<lparr>w_options = exampleOptions, w_head = ''abc123'', w_parcels = exampleParcelStore,
      w_heap = exampleHeap, w_log = []\<rparr>"

definition exampleBackup ::
  "(string list option \<times> bool_or_string \<times> string \<times> string option \<times> bool) TasksRunnerBackup" where
  "exampleBackup =
     \<lparr>timestamp = 1700000000000,
      data = Present \<lparr>bd_options = pickExample exampleOptions, bd_head = ''abc123'',
                      bd_state = [(''old-pkg'', VRef 3), (''expo-av'', VRef 2)]\<rparr>\<rparr>"

text \<open>
  A task that logs nothing and changes nothing, and a task runner that finds the backup of
  an earlier run, validates it, asks whether to use it, restores it, runs the first task
  and captures a new backup; \<open>rejectingRunner\<close> is the run in which the validation fails.
\<close>

definition exampleRunTask :: "Task \<Rightarrow> pid list \<Rightarrow> CommandOptions \<Rightarrow> world \<Rightarrow> world" where
  "exampleRunTask task parcels opts w = w"

definition exampleRunner ::
  "Task list \<Rightarrow> (string list option \<times> bool_or_string \<times> string \<times> string option \<times> bool) invocation list" where
  "exampleRunner tasks =
     [Call_validateBackup exampleBackup, Call_shouldUseBackup, Call_restoreBackup exampleBackup [],
      Run_task (hd tasks) [0], Call_createBackupData (hd tasks) [0] exampleOptions]"

definition rejectingRunner ::
  "Task list \<Rightarrow> (string list option \<times> bool_or_string \<times> string \<times> string option \<times> bool) invocation list" where
  "rejectingRunner tasks =
     [Call_validateBackup (exampleBackup\<lparr>data := Undefined\<rparr>), Call_backupValidationFailed,
      Run_task (hd tasks) []]"

text \<open>A package graph that knows \<^verbatim>\<open>expo-av\<close> only (a node is its package name), and the
  parcel object the cache has for it.\<close>

definition exampleGetNode :: "string \<Rightarrow> string option" where
  "exampleGetNode name = (if name = ''expo-av'' then Some ''expo-av'' else None)"

definition exampleGetCachedParcel :: "string \<Rightarrow> pid" where
  "exampleGetCachedParcel node = 0"

section \<open>Properties of the store operations\<close>

subsection \<open>Keys and their order\<close>

lemma readNat_showNat: "readNat (showNat n) = n"
proof (induction n rule: showNat.induct)
  case (1 n)
  show ?case
  proof (cases "n < 10")
    case True
    then show ?thesis by (subst showNat.simps) (simp add: readNat_def)
  next
    case False
    have "n mod 10 < 10" by simp
    then have d: "(48 + n mod 10) mod 256 = 48 + n mod 10" by simp
    from 1[OF False] False show ?thesis
      by (subst showNat.simps) (simp add: readNat_def d)
  qed
qed

lemma inj_showNat: "inj showNat"
  by (rule inj_on_inverseI[of _ readNat]) (rule readNat_showNat)

lemma showNat_digits: "\<forall>c \<in> set (showNat n). 48 \<le> (of_char c :: nat) \<and> (of_char c :: nat) < 58"
proof (induction n rule: showNat.induct)
  case (1 n)
  show ?case
  proof (cases "n < 10")
    case True
    then show ?thesis by (subst showNat.simps) simp
  next
    case False
    have "n mod 10 < 10" by simp
    then have d: "(48 + n mod 10) mod 256 = 48 + n mod 10" by simp
    from 1[OF False] False show ?thesis
      by (subst showNat.simps) (simp add: d)
  qed
qed

lemma array_index_nondigit:
  assumes "\<not> (48 \<le> (of_char c :: nat) \<and> (of_char c :: nat) < 58)"
  shows "array_index (c # cs) = None"
proof -
  have "showNat (readNat (c # cs)) \<noteq> c # cs"
  proof
    assume "showNat (readNat (c # cs)) = c # cs"
    then have "c \<in> set (showNat (readNat (c # cs)))" by simp
    with showNat_digits assms show False by blast
  qed
  then show ?thesis by (simp add: array_index_def)
qed

lemma array_index_showNat: "n < 4294967295 \<Longrightarrow> array_index (showNat n) = Some n"
  by (simp add: array_index_def readNat_showNat)

lemma array_index_inj: "array_index k = Some n \<Longrightarrow> array_index k' = Some n \<Longrightarrow> k = k'"
  by (metis array_index_def option.distinct(1) option.inject)

lemma goes_before_asym: "goes_before k k' \<Longrightarrow> \<not> goes_before k' k"
  by (auto simp: goes_before_def split: option.splits)

lemma goes_before_trans: "goes_before x k \<Longrightarrow> goes_before k k' \<Longrightarrow> goes_before x k'"
  by (auto simp: goes_before_def split: option.splits)

lemma update_prop_keys: "map fst (update_prop ps k v) = map fst ps"
  by (induction ps) auto

lemma insert_prop_keys: "fst ` set (insert_prop ps k v) = insert k (fst ` set ps)"
  by (induction ps) force+

lemma insert_prop_sorted:
  "sorted_wrt key_order (map fst ps) \<Longrightarrow> k \<notin> fst ` set ps \<Longrightarrow>
     sorted_wrt key_order (map fst (insert_prop ps k v))"
proof (induction ps)
  case Nil
  then show ?case by simp
next
  case (Cons p ps)
  obtain k' v' where p: "p = (k', v')" by (cases p)
  from Cons.prems p have kk': "k \<noteq> k'" and nk: "k \<notin> fst ` set ps"
    and tl: "sorted_wrt key_order (map fst ps)"
    by auto
  from Cons.prems p have "\<forall>x \<in> set (map fst ps). key_order k' x" by simp
  then have hd: "\<forall>x \<in> fst ` set ps. key_order k' x" by simp
  show ?case
  proof (cases "goes_before k k'")
    case True
    have "key_order k k'" using True kk' by (simp add: key_order_def goes_before_asym)
    moreover have "key_order k x" if x: "x \<in> fst ` set ps" for x
    proof -
      from hd x have "key_order k' x" by blast
      then have "\<not> goes_before x k'" by (simp add: key_order_def)
      with True have "\<not> goes_before x k" by (blast intro: goes_before_trans)
      moreover from x nk have "k \<noteq> x" by auto
      ultimately show ?thesis by (simp add: key_order_def)
    qed
    ultimately show ?thesis using True p hd tl by auto
  next
    case False
    have "key_order k' k" using False kk' by (auto simp: key_order_def)
    with hd have "\<forall>x \<in> fst ` set (insert_prop ps k v). key_order k' x"
      by (simp add: insert_prop_keys)
    with Cons.IH[OF tl nk] False p show ?thesis by auto
  qed
qed

lemma key_order_distinct: "sorted_wrt key_order ks \<Longrightarrow> distinct ks"
  by (induction ks) (auto simp: key_order_def)


subsection \<open>Setting a property\<close>





lemma obj_set_sorted:
  "sorted_wrt key_order (map fst ps) \<Longrightarrow> sorted_wrt key_order (map fst (obj_set ps k v))"
  by (simp add: obj_set_def update_prop_keys insert_prop_sorted)

lemma obj_set_distinct: "distinct (map fst ps) \<Longrightarrow> distinct (map fst (obj_set ps k v))"
proof (cases "k \<in> fst ` set ps")
  case True
  then show "distinct (map fst ps) \<Longrightarrow> ?thesis" by (simp add: obj_set_def update_prop_keys)
next
  case False
  have "distinct (map fst ps) \<Longrightarrow> k \<notin> fst ` set ps \<Longrightarrow> distinct (map fst (insert_prop ps k v))"
  proof (induction ps)
    case Nil
    then show ?case by simp
  next
    case (Cons p ps)
    then show ?case by (cases p) (auto simp: insert_prop_keys)
  qed
  with False show "distinct (map fst ps) \<Longrightarrow> ?thesis" by (simp add: obj_set_def)
qed



lemma map_of_update_prop: "k \<in> fst ` set ps \<Longrightarrow> map_of (update_prop ps k v) = (map_of ps)(k \<mapsto> v)"
proof (induction ps)
  case Nil
  then show ?case by simp
next
  case (Cons p ps)
  obtain k' v' where p: "p = (k', v')" by (cases p)
  show ?case
  proof (cases "k' = k")
    case True
    with p show ?thesis by (simp add: fun_eq_iff)
  next
    case False
    with Cons.prems p have "k \<in> fst ` set ps" by auto
    from Cons.IH[OF this] False p show ?thesis by (simp add: fun_eq_iff)
  qed
qed

lemma map_of_insert_prop: "k \<notin> fst ` set ps \<Longrightarrow> map_of (insert_prop ps k v) = (map_of ps)(k \<mapsto> v)"
  by (induction ps) (auto simp: fun_eq_iff)

lemma map_of_obj_set: "map_of (obj_set ps k v) = (map_of ps)(k \<mapsto> v)"
  by (simp add: obj_set_def map_of_update_prop map_of_insert_prop)

subsection \<open>References and regions\<close>








subsection \<open>What parsing allocates\<close>


subsection \<open>Serializing in a larger store, and the shape of what is serialized\<close>

lemma wf_heap_Object:
  "wf_heap h \<Longrightarrow> a < length h \<Longrightarrow> h ! a = Object ps \<Longrightarrow>
     (\<forall>u \<in> snd ` set ps. val_ok (length h) u) \<and> sorted_wrt key_order (map fst ps)"
  unfolding wf_heap_def using nth_mem[of a h] by fastforce





subsection \<open>Parsing and serializing again gives the same tree\<close>





subsection \<open>Shapes\<close>







subsection \<open>Reachable objects, clones, and the capture loop\<close>










subsection \<open>Spreading, and the restore loop\<close>

lemma own_props_extend: "val_ok (length h) v \<Longrightarrow> own_props (h @ e) v = own_props h v"
  by (cases v) (auto simp: own_props_def heap_lookup_def nth_append)

lemma spread2_extend:
  "val_ok (length h) a \<Longrightarrow> val_ok (length h) b \<Longrightarrow> spread2 (h @ e) a b = spread2 h a b"
  by (simp add: spread2_def own_props_extend)

lemma own_props_Object: "a < length h \<Longrightarrow> h ! a = Object ps \<Longrightarrow> own_props h (VRef a) = ps"
  by (simp add: own_props_def heap_lookup_def)

lemma map_of_assign_props:
  "distinct (map fst src) \<Longrightarrow> map_of (assign_props tgt src) = map_of tgt ++ map_of src"
proof (induction src arbitrary: tgt)
  case Nil
  then show ?case by simp
next
  case (Cons x src)
  obtain k v where x: "x = (k, v)" by (cases x)
  from Cons.prems x have k: "k \<notin> fst ` set src" and d: "distinct (map fst src)" by auto
  from k have "map_of src k = None" by (simp add: map_of_eq_None_iff)
  then have "(map_of tgt)(k \<mapsto> v) ++ map_of src = map_of tgt ++ (map_of src)(k \<mapsto> v)"
    by (auto simp: fun_eq_iff map_add_def split: option.splits)
  moreover have "map_of (assign_props tgt (x # src)) = (map_of tgt)(k \<mapsto> v) ++ map_of src"
    using Cons.IH[OF d, of "obj_set tgt k v"] x by (simp only: assign_props.simps map_of_obj_set)
  moreover have "map_of (x # src) = (map_of src)(k \<mapsto> v)" using x by (simp add: fun_eq_iff)
  ultimately show ?case by (simp only:)
qed

lemma assign_props_sorted:
  "sorted_wrt key_order (map fst tgt) \<Longrightarrow> sorted_wrt key_order (map fst (assign_props tgt src))"
  by (induction tgt src rule: assign_props.induct) (auto simp: obj_set_sorted)

lemma merge_lookup:
  assumes "distinct (map fst dps)" "distinct (map fst rps)"
  shows "map_of (assign_props (assign_props [] dps) rps) k =
     (case map_of rps k of Some v \<Rightarrow> Some v | None \<Rightarrow> map_of dps k)"
proof -
  have "map_of (assign_props [] dps) = map_of dps"
    using map_of_assign_props[OF assms(1), of "[]"] by simp
  then have "map_of (assign_props (assign_props [] dps) rps) = map_of dps ++ map_of rps"
    using map_of_assign_props[OF assms(2)] by simp
  then show ?thesis by (simp add: map_add_def)
qed

lemma restoreBackup_loop_filter:
  "restoreBackup_loop getNode getCachedParcel (filter (\<lambda>(name, rs). getNode name \<noteq> None) es)
     parcels store h =
   restoreBackup_loop getNode getCachedParcel es parcels store h"
  by (induction es arbitrary: parcels store h) (auto simp: alloc_def Let_def split: option.splits)

lemma restoreBackup_loop_parcels:
  "fst (restoreBackup_loop getNode getCachedParcel es parcels store h) =
     parcels @ map fst (resolved getNode getCachedParcel es)"
  by (induction es arbitrary: parcels store h) (auto simp: alloc_def Let_def split: option.splits)

lemma restoreBackup_loop_names:
  "pkg_packageName (fst (snd (restoreBackup_loop getNode getCachedParcel es parcels store h)) q) =
     pkg_packageName (store q)"
  by (induction es arbitrary: parcels store h) (auto simp: alloc_def Let_def split: option.splits)

lemma resolved_origin:
  "(p, rs) \<in> set (resolved getNode getCachedParcel es) \<Longrightarrow>
     \<exists>name node. (name, rs) \<in> set es \<and> getNode name = Some node \<and> p = getCachedParcel node"
proof (induction es)
  case Nil
  then show ?case by simp
next
  case (Cons x es)
  obtain name rs' where x: "x = (name, rs')" by (cases x)
  show ?case
  proof (cases "getNode name")
    case None
    with Cons x show ?thesis by auto
  next
    case (Some node)
    with Cons.prems x consider "p = getCachedParcel node \<and> rs = rs'"
      | "(p, rs) \<in> set (resolved getNode getCachedParcel es)" by auto
    then show ?thesis
    proof cases
      case 1
      with x Some show ?thesis by auto
    next
      case 2
      from Cons.IH[OF 2] show ?thesis by auto
    qed
  qed
qed

lemma resolved_mem:
  "(name, rs) \<in> set es \<Longrightarrow> getNode name = Some node \<Longrightarrow>
     (getCachedParcel node, rs) \<in> set (resolved getNode getCachedParcel es)"
  by (induction es) (auto split: option.splits)

lemma restoreBackup_loop_spec:
  assumes "distinct (map fst (resolved getNode getCachedParcel es))"
    and "\<forall>(p, rs) \<in> set (resolved getNode getCachedParcel es).
           val_ok (length h) (state (store p)) \<and> val_ok (length h) rs"
  shows "\<exists>store'. restoreBackup_loop getNode getCachedParcel es parcels store (h @ e) =
       (parcels @ map fst (resolved getNode getCachedParcel es), store',
        h @ e @ map (\<lambda>(p, rs). Object (spread2 h (state (store p)) rs))
                  (resolved getNode getCachedParcel es)) \<and>
     (\<forall>i < length (resolved getNode getCachedParcel es).
        store' (fst (resolved getNode getCachedParcel es ! i)) =
          (store (fst (resolved getNode getCachedParcel es ! i)))
            \<lparr>state := VRef (length h + length e + i)\<rparr>) \<and>
     (\<forall>q. q \<notin> fst ` set (resolved getNode getCachedParcel es) \<longrightarrow> store' q = store q)"
  using assms
proof (induction es arbitrary: parcels store e)
  case Nil
  then show ?case by simp
next
  case (Cons x es)
  obtain name rs where x: "x = (name, rs)" by (cases x)
  let ?R = "resolved getNode getCachedParcel es"
  show ?case
  proof (cases "getNode name")
    case None
    with Cons x show ?thesis by simp
  next
    case (Some node)
    let ?p = "getCachedParcel node"
    let ?ob = "Object (spread2 h (state (store ?p)) rs)"
    let ?store1 = "store(?p := (store ?p)\<lparr>state := VRef (length h + length e)\<rparr>)"
    from Cons.prems x Some have np: "?p \<notin> fst ` set ?R" and dR: "distinct (map fst ?R)"
      and ok: "val_ok (length h) (state (store ?p))" "val_ok (length h) rs"
      and okR: "\<forall>(q, rs') \<in> set ?R. val_ok (length h) (state (store q)) \<and> val_ok (length h) rs'"
      by auto
    have same: "?store1 q = store q" if "q \<in> fst ` set ?R" for q
    proof -
      from that np have "q \<noteq> ?p" by blast
      then show ?thesis by simp
    qed
    have okR1: "\<forall>(q, rs') \<in> set ?R. val_ok (length h) (state (?store1 q)) \<and> val_ok (length h) rs'"
    proof (intro ballI, clarify)
      fix q rs' assume m: "(q, rs') \<in> set ?R"
      then have "q \<in> fst ` set ?R" by force
      with same okR m show "val_ok (length h) (state (?store1 q)) \<and> val_ok (length h) rs'"
        by fastforce
    qed
    have objs: "map (\<lambda>(q, rs'). Object (spread2 h (state (?store1 q)) rs')) ?R =
                map (\<lambda>(q, rs'). Object (spread2 h (state (store q)) rs')) ?R"
    proof (rule map_cong[OF refl])
      fix y assume y: "y \<in> set ?R"
      obtain q rs' where yq: "y = (q, rs')" by (cases y)
      with y have "q \<in> fst ` set ?R" by force
      with same yq show "(case y of (q, rs') \<Rightarrow> Object (spread2 h (state (?store1 q)) rs')) =
          (case y of (q, rs') \<Rightarrow> Object (spread2 h (state (store q)) rs'))" by simp
    qed
    from Cons.IH[OF dR okR1, of "parcels @ [?p]" "e @ [?ob]"] obtain store' where
      l: "restoreBackup_loop getNode getCachedParcel es (parcels @ [?p]) ?store1 (h @ e @ [?ob]) =
            ((parcels @ [?p]) @ map fst ?R, store',
             h @ (e @ [?ob]) @ map (\<lambda>(q, rs'). Object (spread2 h (state (?store1 q)) rs')) ?R)"
      and upd: "\<forall>i < length ?R. store' (fst (?R ! i)) =
                  (?store1 (fst (?R ! i)))\<lparr>state := VRef (length h + length (e @ [?ob]) + i)\<rparr>"
      and rest: "\<forall>q. q \<notin> fst ` set ?R \<longrightarrow> store' q = ?store1 q"
      by blast
    have sp: "spread2 (h @ e) (state (store ?p)) rs = spread2 h (state (store ?p)) rs"
      using ok by (rule spread2_extend)
    have res: "resolved getNode getCachedParcel (x # es) = (?p, rs) # ?R"
      using x Some by simp
    have run: "restoreBackup_loop getNode getCachedParcel (x # es) parcels store (h @ e) =
       (parcels @ map fst ((?p, rs) # ?R), store',
        h @ e @ map (\<lambda>(q, rs'). Object (spread2 h (state (store q)) rs')) ((?p, rs) # ?R))"
      using l x Some sp objs by (simp add: alloc_def Let_def)
    have upd': "store' (fst (((?p, rs) # ?R) ! i)) =
          (store (fst (((?p, rs) # ?R) ! i)))\<lparr>state := VRef (length h + length e + i)\<rparr>"
      if i: "i < length ((?p, rs) # ?R)" for i
    proof (cases i)
      case 0
      with rest np show ?thesis by simp
    next
      case (Suc n)
      with i have n: "n < length ?R" by simp
      then have "fst (?R ! n) \<in> fst ` set ?R" by (metis nth_mem image_eqI)
      with same have "?store1 (fst (?R ! n)) = store (fst (?R ! n))" by blast
      with upd n Suc show ?thesis by simp
    qed
    have rest': "store' q = store q" if "q \<notin> fst ` set ((?p, rs) # ?R)" for q
      using that rest by auto
    from run upd' rest' show ?thesis unfolding res by blast
  qed
qed

lemma resolved_ok:
  assumes "\<forall>(m, rs) \<in> set es. val_ok n rs" "\<forall>q. val_ok n (state (store q))"
  shows "\<forall>(p, rs) \<in> set (resolved getNode getCachedParcel es). val_ok n (state (store p)) \<and> val_ok n rs"
proof (intro ballI, clarify)
  fix p rs assume "(p, rs) \<in> set (resolved getNode getCachedParcel es)"
  from resolved_origin[OF this] obtain m where "(m, rs) \<in> set es" by blast
  with assms show "val_ok n (state (store p)) \<and> val_ok n rs" by auto
qed

lemma restoreBackup_spec:
  assumes d: "data backup = Present d"
    and dist: "distinct (map fst (resolved getNode getCachedParcel (bd_state d)))"
    and ok: "\<forall>(m, rs) \<in> set (bd_state d). val_ok (length (w_heap w)) rs"
      "\<forall>q. val_ok (length (w_heap w)) (state (w_parcels w q))"
  shows "\<exists>store'. restoreBackup getNode getCachedParcel backup parcels w =
       (Inr (parcels @ map fst (resolved getNode getCachedParcel (bd_state d))),
        w\<lparr>w_log := w_log w @ [Info (RestoringFromBackup (timestamp backup))],
          w_parcels := store',
          w_heap := w_heap w @ map (\<lambda>(p, rs). Object (spread2 (w_heap w) (state (w_parcels w p)) rs))
                                  (resolved getNode getCachedParcel (bd_state d))\<rparr>) \<and>
     (\<forall>i < length (resolved getNode getCachedParcel (bd_state d)).
        store' (fst (resolved getNode getCachedParcel (bd_state d) ! i)) =
          (w_parcels w (fst (resolved getNode getCachedParcel (bd_state d) ! i)))
            \<lparr>state := VRef (length (w_heap w) + i)\<rparr>) \<and>
     (\<forall>q. q \<notin> fst ` set (resolved getNode getCachedParcel (bd_state d)) \<longrightarrow> store' q = w_parcels w q)"
proof -
  from restoreBackup_loop_spec[OF dist resolved_ok[OF ok], of parcels "[]"]
  obtain store' where
    l: "restoreBackup_loop getNode getCachedParcel (bd_state d) parcels (w_parcels w) (w_heap w) =
       (parcels @ map fst (resolved getNode getCachedParcel (bd_state d)), store',
        w_heap w @ map (\<lambda>(p, rs). Object (spread2 (w_heap w) (state (w_parcels w p)) rs))
                  (resolved getNode getCachedParcel (bd_state d)))"
    and u: "\<forall>i < length (resolved getNode getCachedParcel (bd_state d)).
        store' (fst (resolved getNode getCachedParcel (bd_state d) ! i)) =
          (w_parcels w (fst (resolved getNode getCachedParcel (bd_state d) ! i)))
            \<lparr>state := VRef (length (w_heap w) + i)\<rparr>"
    and r: "\<forall>q. q \<notin> fst ` set (resolved getNode getCachedParcel (bd_state d)) \<longrightarrow> store' q = w_parcels w q"
    by auto
  from l d have "restoreBackup getNode getCachedParcel backup parcels w =
       (Inr (parcels @ map fst (resolved getNode getCachedParcel (bd_state d))),
        w\<lparr>w_log := w_log w @ [Info (RestoringFromBackup (timestamp backup))],
          w_parcels := store',
          w_heap := w_heap w @ map (\<lambda>(p, rs). Object (spread2 (w_heap w) (state (w_parcels w p)) rs))
                                  (resolved getNode getCachedParcel (bd_state d))\<rparr>)"
    by (simp add: restoreBackup_def)
  with u r show ?thesis by blast
qed

subsection \<open>Index keys are distinct\<close>

lemma indexed_distinct: "distinct (map fst (indexed vs))"
proof -
  have e: "map fst (enumerate 0 vs) = [0..<length vs]" by simp
  have "map fst (indexed vs) = map (\<lambda>x. showNat (fst x)) (enumerate 0 vs)"
    by (simp add: indexed_def case_prod_unfold)
  moreover have "map showNat (map fst (enumerate 0 vs)) = map (\<lambda>x. showNat (fst x)) (enumerate 0 vs)"
    by (simp only: map_map comp_def)
  ultimately have "map fst (indexed vs) = map showNat [0..<length vs]"
    using arg_cong[OF e, of "map showNat"] by (simp only:)
  then show ?thesis by (simp add: distinct_map inj_on_subset[OF inj_showNat])
qed

lemma own_props_distinct: "wf_heap h \<Longrightarrow> distinct (map fst (own_props h v))"
  by (cases v) (auto simp: own_props_def heap_lookup_def indexed_distinct
      dest: wf_heap_Object key_order_distinct split: jsobj.splits)

subsection \<open>Sharing\<close>




subsection \<open>The concrete inputs, evaluated\<close>

lemma exampleWorld_fields:
  "w_options exampleWorld = exampleOptions" "w_head exampleWorld = ''abc123''"
  "w_parcels exampleWorld = exampleParcelStore" "w_heap exampleWorld = exampleHeap"
  "w_log exampleWorld = []"
  by (simp_all add: exampleWorld_def)

lemma exampleParcelStore_at:
  "exampleParcelStore 0 = \<lparr>pkg_packageName = ''expo-av'', state = VRef 0\<rparr>"
  "exampleParcelStore 1 = \<lparr>pkg_packageName = ''expo-gl'', state = VRef 5\<rparr>"
  "exampleParcelStore (Suc 0) = \<lparr>pkg_packageName = ''expo-gl'', state = VRef 5\<rparr>"
  "exampleParcelStore 2 = \<lparr>pkg_packageName = ''expo-camera'', state = VRef 6\<rparr>"
  "exampleParcelStore 3 = \<lparr>pkg_packageName = ''__proto__'', state = VRef 3\<rparr>"
  by (simp_all add: exampleParcelStore_def)

lemma exampleHeap_wf: "wf_heap exampleHeap"
  by (simp add: wf_heap_def exampleHeap_def key_order_def goes_before_def array_index_nondigit)

lemma exampleParcelStore_ok: "val_ok (length exampleHeap) (state (exampleParcelStore q))"
  by (simp add: exampleParcelStore_def exampleHeap_def)




lemma exampleRestore:
  "fst (restoreBackup exampleGetNode exampleGetCachedParcel exampleBackup [0] exampleWorld) = Inr [0, 0]"
  "w_heap (snd (restoreBackup exampleGetNode exampleGetCachedParcel exampleBackup [0] exampleWorld)) =
     exampleHeap @
       [Object [(''integral'', VBool True), (''releaseVersion'', VStr ''1.1.0''), (''bump'', VRef 1)]]"
  "w_parcels (snd (restoreBackup exampleGetNode exampleGetCachedParcel exampleBackup [0] exampleWorld)) 0 =
     \<lparr>pkg_packageName = ''expo-av'', state = VRef 7\<rparr>"
  by (simp_all add: restoreBackup_def exampleBackup_def exampleWorld_fields exampleParcelStore_at
      exampleHeap_def exampleGetNode_def exampleGetCachedParcel_def alloc_def spread2_def
      own_props_def heap_lookup_def obj_set_def goes_before_def array_index_nondigit)


subsection \<open>One entry of a restored backup\<close>


lemma restoreBackup_entry:
  assumes d: "data backup = Present d"
    and dist: "distinct (map fst (resolved getNode getCachedParcel (bd_state d)))"
    and ok: "\<forall>(m, rs) \<in> set (bd_state d). val_ok (length (w_heap w)) rs"
      "\<forall>q. val_ok (length (w_heap w)) (state (w_parcels w q))"
    and en: "(name, rs) \<in> set (bd_state d)" "getNode name = Some node"
  shows "\<exists>w' e a. restoreBackup getNode getCachedParcel backup parcels w =
            (Inr (parcels @ map fst (resolved getNode getCachedParcel (bd_state d))), w') \<and>
          getCachedParcel node \<in> set (map fst (resolved getNode getCachedParcel (bd_state d))) \<and>
          w_heap w' = w_heap w @ e \<and> length (w_heap w) \<le> a \<and> a < length (w_heap w') \<and>
          w_parcels w' (getCachedParcel node) = (w_parcels w (getCachedParcel node))\<lparr>state := VRef a\<rparr> \<and>
          w_heap w' ! a = Object (spread2 (w_heap w) (state (w_parcels w (getCachedParcel node))) rs)"
proof -
  let ?R = "resolved getNode getCachedParcel (bd_state d)"
  let ?e = "map (\<lambda>(p, rs). Object (spread2 (w_heap w) (state (w_parcels w p)) rs)) ?R"
  from restoreBackup_spec[OF d dist ok, of parcels] obtain store' where
    r: "restoreBackup getNode getCachedParcel backup parcels w =
       (Inr (parcels @ map fst ?R),
        w\<lparr>w_log := w_log w @ [Info (RestoringFromBackup (timestamp backup))],
          w_parcels := store', w_heap := w_heap w @ ?e\<rparr>)"
    and u: "\<forall>i < length ?R. store' (fst (?R ! i)) =
          (w_parcels w (fst (?R ! i)))\<lparr>state := VRef (length (w_heap w) + i)\<rparr>"
    by blast
  from resolved_mem[where getNode = getNode and getCachedParcel = getCachedParcel, OF en]
  have m: "(getCachedParcel node, rs) \<in> set ?R" .
  then obtain i where i: "i < length ?R" "?R ! i = (getCachedParcel node, rs)"
    by (auto simp: in_set_conv_nth)
  from u i have s: "store' (getCachedParcel node) =
      (w_parcels w (getCachedParcel node))\<lparr>state := VRef (length (w_heap w) + i)\<rparr>"
    by force
  from i have c: "(w_heap w @ ?e) ! (length (w_heap w) + i) =
      Object (spread2 (w_heap w) (state (w_parcels w (getCachedParcel node))) rs)"
    by (simp add: nth_append)
  from m have mem: "getCachedParcel node \<in> set (map fst ?R)" by force
  show ?thesis
    apply (rule exI[of _ "w\<lparr>w_log := w_log w @ [Info (RestoringFromBackup (timestamp backup))],
          w_parcels := store', w_heap := w_heap w @ ?e\<rparr>"])
    apply (rule exI[of _ ?e])
    apply (rule exI[of _ "length (w_heap w) + i"])
    using r s c i(1) mem by simp
qed

subsection \<open>What the hooks leave alone\<close>

lemma validateBackup_world: "snd (validateBackup pick diff backup w) = w"
  by (simp add: validateBackup_def)

lemma createBackupData_options: "w_options (snd (createBackupData pick task parcels opts w)) = w_options w"
  by (simp add: createBackupData_def Let_def split: prod.splits sum.splits)

lemma restoreBackup_options:
  "w_options (snd (restoreBackup getNode getCachedParcel backup parcels w)) = w_options w"
  by (simp add: restoreBackup_def Let_def split: prod.splits sum.splits)

lemma invoke_options:
  assumes "\<forall>opts w. w_options (snd (shouldUseBackupAsync opts w)) = w_options w"
    and "\<forall>task parcels opts w. w_options (runTask task parcels opts w) = w_options w"
  shows "w_options (invoke pick diff shouldUseBackupAsync getNode getCachedParcel runTask c w) = w_options w"
  using assms
  by (cases c)
     (simp_all add: validateBackup_world createBackupData_options restoreBackup_options
        shouldUseBackup_def backupValidationFailed_def)

lemma invocations_options:
  assumes "\<forall>opts w. w_options (snd (shouldUseBackupAsync opts w)) = w_options w"
    and "\<forall>task parcels opts w. w_options (runTask task parcels opts w) = w_options w"
  shows "w_options (foldl (\<lambda>w' c. invoke pick diff shouldUseBackupAsync getNode getCachedParcel runTask c w')
            w cs) = w_options w"
  by (induction cs rule: rev_induct) (simp_all add: invoke_options[OF assms])

section \<open>Validity of a backup\<close>

text \<open>
  C1 (validity law). \<^verbatim>\<open>validateBackup\<close> returns \<^verbatim>\<open>true\<close> if and only if the backup has its
  payload, the head commit of the repository equals \<^verbatim>\<open>backup.data.head\<close>, and the diff
  between \<^verbatim>\<open>pickBackupableOptions(options)\<close> and \<^verbatim>\<open>backup.data.options\<close> is empty.
\<close>

theorem validateBackup_true_iff:
  "fst (validateBackup pick diff backup w) = Inr (VBool True) \<longleftrightarrow>
     (\<exists>d. data backup = Present d \<and> w_head w = bd_head d \<and>
          diff (pick (w_options w)) (bd_options d) = None)"
  by (cases "data backup") (auto simp: validateBackup_def split: option.splits)

theorem validateBackup_true_iff_witness:
  "fst (validateBackup pickExample structuralDiff exampleBackup exampleWorld) = Inr (VBool True) \<and>
   fst (validateBackup pickExample structuralDiff exampleBackup (exampleWorld\<lparr>w_head := ''def456''\<rparr>))
     \<noteq> Inr (VBool True)"
  using validateBackup_true_iff [of pickExample structuralDiff exampleBackup exampleWorld]
    validateBackup_true_iff [of pickExample structuralDiff exampleBackup "exampleWorld\<lparr>w_head := ''def456''\<rparr>"]
  by (simp add: exampleBackup_def exampleWorld_def structuralDiff_def)

text \<open>
  C5 (options outside the picked subset do not interfere). Two option objects with the same
  picked subset get the same verdict against the same backup and head, so changing only an
  option that is not picked, such as \<^verbatim>\<open>retry\<close>, never changes it. When the diff reports
  every difference, changing the picked subset of a run whose backup was valid makes the
  verdict \<^verbatim>\<open>false\<close>.
\<close>

theorem validateBackup_noninterference:
  "(pick o1 = pick o2 \<longrightarrow>
      fst (validateBackup pick diff backup (w\<lparr>w_options := o1\<rparr>)) =
      fst (validateBackup pick diff backup (w\<lparr>w_options := o2\<rparr>))) \<and>
   ((\<forall>a b. diff a b = None \<longrightarrow> a = b) \<and>
    fst (validateBackup pick diff backup (w\<lparr>w_options := o1\<rparr>)) = Inr (VBool True) \<and>
    pick o2 \<noteq> pick o1 \<longrightarrow>
      fst (validateBackup pick diff backup (w\<lparr>w_options := o2\<rparr>)) = Inr (VBool False))"
proof (intro conjI impI)
  assume "pick o1 = pick o2"
  then show "fst (validateBackup pick diff backup (w\<lparr>w_options := o1\<rparr>)) =
      fst (validateBackup pick diff backup (w\<lparr>w_options := o2\<rparr>))"
    by (cases "data backup") (simp_all add: validateBackup_def)
next
  assume a: "(\<forall>a b. diff a b = None \<longrightarrow> a = b) \<and>
    fst (validateBackup pick diff backup (w\<lparr>w_options := o1\<rparr>)) = Inr (VBool True) \<and>
    pick o2 \<noteq> pick o1"
  then obtain d where d: "data backup = Present d" "w_head w = bd_head d"
      "diff (pick o1) (bd_options d) = None"
    by (cases "data backup") (auto simp: validateBackup_def split: option.splits if_splits)
  from a d have "pick o1 = bd_options d" by blast
  with a have "pick o2 \<noteq> bd_options d" by simp
  with a have "diff (pick o2) (bd_options d) \<noteq> None" by blast
  with d show "fst (validateBackup pick diff backup (w\<lparr>w_options := o2\<rparr>)) = Inr (VBool False)"
    by (auto simp: validateBackup_def)
qed

theorem validateBackup_noninterference_witness:
  "pickExample exampleOptions = pickExample (exampleOptions\<lparr>retry := True\<rparr>) \<and>
   fst (validateBackup pickExample structuralDiff exampleBackup exampleWorld) =
   fst (validateBackup pickExample structuralDiff exampleBackup
          (exampleWorld\<lparr>w_options := exampleOptions\<lparr>retry := True\<rparr>\<rparr>)) \<and>
   fst (validateBackup pickExample structuralDiff exampleBackup exampleWorld) = Inr (VBool True) \<and>
   pickExample (exampleOptions\<lparr>tag := ''latest''\<rparr>) \<noteq> pickExample exampleOptions \<and>
   fst (validateBackup pickExample structuralDiff exampleBackup
          (exampleWorld\<lparr>w_options := exampleOptions\<lparr>tag := ''latest''\<rparr>\<rparr>)) = Inr (VBool False)"
proof -
  have sound: "\<forall>a b :: string list option \<times> bool_or_string \<times> string \<times> string option \<times> bool.
      structuralDiff a b = None \<longrightarrow> a = b"
    by (simp add: structuralDiff_def)
  have same: "pickExample exampleOptions = pickExample (exampleOptions\<lparr>retry := True\<rparr>)"
    by (simp add: pickExample_def)
  have changed: "pickExample (exampleOptions\<lparr>tag := ''latest''\<rparr>) \<noteq> pickExample exampleOptions"
    by (simp add: pickExample_def exampleOptions_def)
  have w: "exampleWorld\<lparr>w_options := exampleOptions\<rparr> = exampleWorld"
    by (simp add: exampleWorld_def)
  have valid: "fst (validateBackup pickExample structuralDiff exampleBackup exampleWorld) = Inr (VBool True)"
    by (simp add: validateBackup_def exampleBackup_def exampleWorld_def structuralDiff_def)
  show ?thesis
    using validateBackup_noninterference
            [of pickExample exampleOptions "exampleOptions\<lparr>retry := True\<rparr>" structuralDiff
                exampleBackup exampleWorld]
          validateBackup_noninterference
            [of pickExample exampleOptions "exampleOptions\<lparr>tag := ''latest''\<rparr>" structuralDiff
                exampleBackup exampleWorld]
          sound same changed valid
    unfolding w by blast
qed

text \<open>
  C10 (missing payload). For a backup whose \<^verbatim>\<open>data\<close> is \<^verbatim>\<open>undefined\<close> or \<^verbatim>\<open>null\<close>,
  \<^verbatim>\<open>validateBackup\<close> does not throw and its result is falsy: the members of the missing
  payload are never read.
\<close>

theorem validateBackup_missing_data:
  "data backup = Undefined \<or> data backup = Null \<Longrightarrow>
     \<exists>v. fst (validateBackup pick diff backup w) = Inr v \<and> \<not> truthy v"
  by (auto simp: validateBackup_def)

theorem validateBackup_missing_data_witness:
  "(\<exists>v. fst (validateBackup pickExample structuralDiff (exampleBackup\<lparr>data := Undefined\<rparr>) exampleWorld)
          = Inr v \<and> \<not> truthy v) \<and>
   (\<exists>v. fst (validateBackup pickExample structuralDiff (exampleBackup\<lparr>data := Null\<rparr>) exampleWorld)
          = Inr v \<and> \<not> truthy v)"
  using validateBackup_missing_data [of "exampleBackup\<lparr>data := Undefined\<rparr>" pickExample structuralDiff exampleWorld]
        validateBackup_missing_data [of "exampleBackup\<lparr>data := Null\<rparr>" pickExample structuralDiff exampleWorld]
  by simp

section \<open>Task selection\<close>

text \<open>
  C9 (exclusive task selection). \<^verbatim>\<open>tasksForOptions\<close> returns exactly one task, by the
  precedence \<^verbatim>\<open>listUnpublished\<close>, \<^verbatim>\<open>grantAccess\<close>, \<^verbatim>\<open>checkIntegrity\<close>, \<^verbatim>\<open>canary\<close>, and the
  publish pipeline when none of them is set; of several flags set at once only the first
  in that order counts.
\<close>

theorem tasksForOptions_exclusive:
  "(\<exists>t. tasksForOptions opts = [t]) \<and>
   (listUnpublished opts \<longrightarrow> tasksForOptions opts = [Task_listUnpublished]) \<and>
   (\<not> listUnpublished opts \<and> grantAccess opts \<longrightarrow>
      tasksForOptions opts = [Task_grantTeamAccessToPackages]) \<and>
   (\<not> listUnpublished opts \<and> \<not> grantAccess opts \<and> checkIntegrity opts \<longrightarrow>
      tasksForOptions opts = [Task_checkPackagesIntegrity]) \<and>
   (\<not> listUnpublished opts \<and> \<not> grantAccess opts \<and> \<not> checkIntegrity opts \<and> canary opts \<longrightarrow>
      tasksForOptions opts = [Task_publishCanaryPipeline]) \<and>
   (\<not> listUnpublished opts \<and> \<not> grantAccess opts \<and> \<not> checkIntegrity opts \<and> \<not> canary opts \<longrightarrow>
      tasksForOptions opts = [Task_publishPackagesPipeline])"
  by (simp add: tasksForOptions_def)

theorem tasksForOptions_exclusive_witness:
  "tasksForOptions (exampleOptions\<lparr>listUnpublished := True, grantAccess := True,
      checkIntegrity := True, canary := True\<rparr>) = [Task_listUnpublished] \<and>
   tasksForOptions (exampleOptions\<lparr>checkIntegrity := True, canary := True\<rparr>) =
      [Task_checkPackagesIntegrity] \<and>
   tasksForOptions exampleOptions = [Task_publishPackagesPipeline]"
  using tasksForOptions_exclusive
          [of "exampleOptions\<lparr>listUnpublished := True, grantAccess := True,
                 checkIntegrity := True, canary := True\<rparr>"]
        tasksForOptions_exclusive [of "exampleOptions\<lparr>checkIntegrity := True, canary := True\<rparr>"]
        tasksForOptions_exclusive [of exampleOptions]
  by (simp add: exampleOptions_def)

section \<open>The notification of a failed validation\<close>

text \<open>
  C8 (the notification is the only effect). \<^verbatim>\<open>backupValidationFailed\<close> has no failing
  branch and changes nothing but the log, to which it adds one warning: the options, the
  repository head, the parcels and the object store, where every state bag and every
  backup's data live, stay as they were.
\<close>

theorem backupValidationFailed_only_warns:
  "w_log (backupValidationFailed w) = w_log w @ [Warn FoundBackupWithDifferentOptions] \<and>
   w_options (backupValidationFailed w) = w_options w \<and>
   w_head (backupValidationFailed w) = w_head w \<and>
   w_parcels (backupValidationFailed w) = w_parcels w \<and>
   w_heap (backupValidationFailed w) = w_heap w"
  by (simp add: backupValidationFailed_def)

section \<open>Capturing a backup\<close>




section \<open>Restoring a backup\<close>

text \<open>
  C3 (entries whose package is gone). For a backup whose state has an entry for a name the
  package graph does not know, \<^verbatim>\<open>restoreBackup\<close> returns without throwing; the result is the
  one it gives for the backup without the entries of unknown packages, so the other entries
  are restored as if those were not there; and when the graph and the parcels go by name
  and the name was not in the array before, no parcel of that name is in the array after.
\<close>

theorem restoreBackup_drops_unresolved:
  assumes "data backup = Present d" "name \<in> fst ` set (bd_state d)" "getNode name = None"
  shows "(\<exists>parcels' w'. restoreBackup getNode getCachedParcel backup parcels w = (Inr parcels', w') \<and>
            (name \<notin> (\<lambda>p. pkg_packageName (w_parcels w p)) ` set parcels \<and>
             (\<forall>m node. getNode m = Some node \<longrightarrow>
                 pkg_packageName (w_parcels w (getCachedParcel node)) = m) \<longrightarrow>
               name \<notin> (\<lambda>p. pkg_packageName (w_parcels w' p)) ` set parcels')) \<and>
         restoreBackup getNode getCachedParcel
           (backup\<lparr>data := Present (d\<lparr>bd_state := filter (\<lambda>(m, rs). getNode m \<noteq> None) (bd_state d)\<rparr>)\<rparr>)
           parcels w =
         restoreBackup getNode getCachedParcel backup parcels w"
proof (intro conjI)
  let ?l = "restoreBackup_loop getNode getCachedParcel (bd_state d) parcels (w_parcels w) (w_heap w)"
  obtain parcels' store h where l: "?l = (parcels', store, h)"
    by (cases ?l)
  let ?w' = "w\<lparr>w_log := w_log w @ [Info (RestoringFromBackup (timestamp backup))],
                w_parcels := store, w_heap := h\<rparr>"
  have r: "restoreBackup getNode getCachedParcel backup parcels w = (Inr parcels', ?w')"
    using l assms(1) by (simp add: restoreBackup_def)
  have ps: "parcels' = parcels @ map fst (resolved getNode getCachedParcel (bd_state d))"
    using restoreBackup_loop_parcels[of getNode getCachedParcel "bd_state d" parcels "w_parcels w" "w_heap w"] l
    by simp
  have nm: "pkg_packageName (store q) = pkg_packageName (w_parcels w q)" for q
    using restoreBackup_loop_names[of getNode getCachedParcel "bd_state d" parcels "w_parcels w" "w_heap w" q] l
    by simp
  have "name \<notin> (\<lambda>p. pkg_packageName (w_parcels ?w' p)) ` set parcels'"
    if n: "name \<notin> (\<lambda>p. pkg_packageName (w_parcels w p)) ` set parcels"
      and byname: "\<forall>m node. getNode m = Some node \<longrightarrow>
                 pkg_packageName (w_parcels w (getCachedParcel node)) = m"
  proof
    assume "name \<in> (\<lambda>p. pkg_packageName (w_parcels ?w' p)) ` set parcels'"
    then obtain p where p: "p \<in> set parcels'" "name = pkg_packageName (w_parcels w p)"
      using nm by auto
    with n ps have "p \<in> fst ` set (resolved getNode getCachedParcel (bd_state d))" by auto
    then obtain rs where "(p, rs) \<in> set (resolved getNode getCachedParcel (bd_state d))" by force
    from resolved_origin[OF this] obtain m node where
      "getNode m = Some node" "p = getCachedParcel node" by blast
    with byname p(2) have "getNode name \<noteq> None" by auto
    with assms(3) show False by simp
  qed
  with r show "\<exists>parcels' w'. restoreBackup getNode getCachedParcel backup parcels w = (Inr parcels', w') \<and>
            (name \<notin> (\<lambda>p. pkg_packageName (w_parcels w p)) ` set parcels \<and>
             (\<forall>m node. getNode m = Some node \<longrightarrow>
                 pkg_packageName (w_parcels w (getCachedParcel node)) = m) \<longrightarrow>
               name \<notin> (\<lambda>p. pkg_packageName (w_parcels w' p)) ` set parcels')"
    by blast
next
  show "restoreBackup getNode getCachedParcel
           (backup\<lparr>data := Present (d\<lparr>bd_state := filter (\<lambda>(m, rs). getNode m \<noteq> None) (bd_state d)\<rparr>)\<rparr>)
           parcels w =
         restoreBackup getNode getCachedParcel backup parcels w"
    using assms(1)
      restoreBackup_loop_filter[of getNode getCachedParcel "bd_state d" parcels "w_parcels w" "w_heap w"]
    by (simp add: restoreBackup_def)
qed

theorem restoreBackup_drops_unresolved_witness:
  "data exampleBackup = Present \<lparr>bd_options = pickExample exampleOptions, bd_head = ''abc123'',
                      bd_state = [(''old-pkg'', VRef 3), (''expo-av'', VRef 2)]\<rparr> \<and>
   exampleGetNode ''old-pkg'' = None \<and>
   fst (restoreBackup exampleGetNode exampleGetCachedParcel exampleBackup [0] exampleWorld) = Inr [0, 0] \<and>
   map (\<lambda>p. pkg_packageName
          (w_parcels (snd (restoreBackup exampleGetNode exampleGetCachedParcel exampleBackup [0] exampleWorld)) p))
     [0, 0] = [''expo-av'', ''expo-av''] \<and>
   restoreBackup exampleGetNode exampleGetCachedParcel
     (exampleBackup\<lparr>data := Present \<lparr>bd_options = pickExample exampleOptions, bd_head = ''abc123'',
                      bd_state = [(''expo-av'', VRef 2)]\<rparr>\<rparr>) [0] exampleWorld =
   restoreBackup exampleGetNode exampleGetCachedParcel exampleBackup [0] exampleWorld"
proof -
  let ?d = "\<lparr>bd_options = pickExample exampleOptions, bd_head = ''abc123'',
                      bd_state = [(''old-pkg'', VRef 3), (''expo-av'', VRef 2)]\<rparr>"
  have d: "data exampleBackup = Present ?d" by (simp add: exampleBackup_def)
  have n: "''old-pkg'' \<in> fst ` set (bd_state ?d)" by simp
  have g: "exampleGetNode ''old-pkg'' = None" by (simp add: exampleGetNode_def)
  have f: "filter (\<lambda>(m, rs). exampleGetNode m \<noteq> None) (bd_state ?d) = [(''expo-av'', VRef 2)]"
    by (simp add: exampleGetNode_def)
  from restoreBackup_drops_unresolved
         [where backup = exampleBackup and d = ?d and name = "''old-pkg''" and getNode = exampleGetNode
            and getCachedParcel = exampleGetCachedParcel and parcels = "[0]" and w = exampleWorld,
          OF d n g]
    d g exampleRestore f
  show ?thesis by simp
qed

text \<open>
  C4 (merging the restored state). For an entry whose package the graph knows,
  \<^verbatim>\<open>restoreBackup\<close> appends the package's parcel to the array, after the parcels that were
  there and in the order of the entries, and points the parcel's \<^verbatim>\<open>state\<close> at a new object,
  \<^verbatim>\<open>{ ...parcel.state, ...restoredState }\<close>: the objects that were in the store are left as
  they were, and the new one has the properties of the parcel's state before the restore
  followed by those of the restored bag, so that every key of the restored bag has the
  restored value and every other key the value the parcel's state had. This is for a
  backup whose entries resolve to different parcels; a parcel two names resolve to is
  merged twice.
\<close>

theorem restoreBackup_merges_state:
  assumes "data backup = Present d"
    and "distinct (map fst (resolved getNode getCachedParcel (bd_state d)))"
    and "wf_heap (w_heap w)"
    and "\<forall>(m, rs) \<in> set (bd_state d). val_ok (length (w_heap w)) rs"
    and "\<forall>q. val_ok (length (w_heap w)) (state (w_parcels w q))"
    and "(name, rs) \<in> set (bd_state d)" "getNode name = Some node"
  shows "\<exists>w' a. restoreBackup getNode getCachedParcel backup parcels w =
            (Inr (parcels @ map fst (resolved getNode getCachedParcel (bd_state d))), w') \<and>
          getCachedParcel node \<in> set (map fst (resolved getNode getCachedParcel (bd_state d))) \<and>
          w_parcels w' (getCachedParcel node) =
            (w_parcels w (getCachedParcel node))\<lparr>state := VRef a\<rparr> \<and>
          length (w_heap w) \<le> a \<and> a < length (w_heap w') \<and>
          take (length (w_heap w)) (w_heap w') = w_heap w \<and>
          w_heap w' ! a =
            Object (spread2 (w_heap w) (state (w_parcels w (getCachedParcel node))) rs) \<and>
          (\<forall>sa dps ra rps.
              state (w_parcels w (getCachedParcel node)) = VRef sa \<and> w_heap w ! sa = Object dps \<and>
              rs = VRef ra \<and> w_heap w ! ra = Object rps \<longrightarrow>
                w_heap w' ! a = Object (assign_props (assign_props [] dps) rps) \<and>
                (\<forall>k. map_of (assign_props (assign_props [] dps) rps) k =
                       (case map_of rps k of Some v \<Rightarrow> Some v | None \<Rightarrow> map_of dps k)))"
proof -
  let ?p = "getCachedParcel node"
  from restoreBackup_entry[OF assms(1,2,4,5,6,7), where parcels = parcels] obtain w' e a where
    r: "restoreBackup getNode getCachedParcel backup parcels w =
            (Inr (parcels @ map fst (resolved getNode getCachedParcel (bd_state d))), w')"
    and m: "?p \<in> set (map fst (resolved getNode getCachedParcel (bd_state d)))"
    and h: "w_heap w' = w_heap w @ e" and a: "length (w_heap w) \<le> a" "a < length (w_heap w')"
    and s: "w_parcels w' ?p = (w_parcels w ?p)\<lparr>state := VRef a\<rparr>"
    and c: "w_heap w' ! a = Object (spread2 (w_heap w) (state (w_parcels w ?p)) rs)"
    by blast
  from h have t: "take (length (w_heap w)) (w_heap w') = w_heap w" by simp
  have mg: "w_heap w' ! a = Object (assign_props (assign_props [] dps) rps) \<and>
                (\<forall>k. map_of (assign_props (assign_props [] dps) rps) k =
                       (case map_of rps k of Some v \<Rightarrow> Some v | None \<Rightarrow> map_of dps k))"
    if o: "state (w_parcels w ?p) = VRef sa \<and> w_heap w ! sa = Object dps \<and>
           rs = VRef ra \<and> w_heap w ! ra = Object rps" for sa dps ra rps
  proof -
    from assms(5) o have sa: "sa < length (w_heap w)" by (metis val_ok.simps(1))
    from assms(4,6) o have ra: "ra < length (w_heap w)" by auto
    from o sa have od: "own_props (w_heap w) (state (w_parcels w ?p)) = dps"
      by (simp add: own_props_Object)
    from o ra have orr: "own_props (w_heap w) rs = rps" by (simp add: own_props_Object)
    from wf_heap_Object[OF assms(3) sa] o have "distinct (map fst dps)"
      by (auto intro: key_order_distinct)
    moreover from wf_heap_Object[OF assms(3) ra] o have "distinct (map fst rps)"
      by (auto intro: key_order_distinct)
    ultimately have "\<forall>k. map_of (assign_props (assign_props [] dps) rps) k =
                       (case map_of rps k of Some v \<Rightarrow> Some v | None \<Rightarrow> map_of dps k)"
      using merge_lookup by blast
    with c od orr show ?thesis by (simp add: spread2_def)
  qed
  show ?thesis
    apply (rule exI[of _ w'])
    apply (rule exI[of _ a])
    using r m s a t c mg by blast
qed

theorem restoreBackup_merges_state_witness:
  "data exampleBackup = Present \<lparr>bd_options = pickExample exampleOptions, bd_head = ''abc123'',
                      bd_state = [(''old-pkg'', VRef 3), (''expo-av'', VRef 2)]\<rparr> \<and>
   resolved exampleGetNode exampleGetCachedParcel [(''old-pkg'', VRef 3), (''expo-av'', VRef 2)] =
     [(0, VRef 2)] \<and>
   exampleGetNode ''expo-av'' = Some ''expo-av'' \<and> exampleGetCachedParcel ''expo-av'' = 0 \<and>
   wf_heap (w_heap exampleWorld) \<and>
   state (w_parcels exampleWorld 0) = VRef 0 \<and>
   w_heap exampleWorld ! 0 = Object [(''integral'', VBool True)] \<and>
   w_heap exampleWorld ! 2 = Object [(''releaseVersion'', VStr ''1.1.0''), (''bump'', VRef 1)] \<and>
   fst (restoreBackup exampleGetNode exampleGetCachedParcel exampleBackup [0] exampleWorld) = Inr [0, 0] \<and>
   w_parcels (snd (restoreBackup exampleGetNode exampleGetCachedParcel exampleBackup [0] exampleWorld)) 0 =
     \<lparr>pkg_packageName = ''expo-av'', state = VRef 7\<rparr> \<and>
   w_heap (snd (restoreBackup exampleGetNode exampleGetCachedParcel exampleBackup [0] exampleWorld)) ! 7 =
     Object [(''integral'', VBool True), (''releaseVersion'', VStr ''1.1.0''), (''bump'', VRef 1)] \<and>
   assign_props (assign_props [] [(''integral'', VBool True)])
       [(''releaseVersion'', VStr ''1.1.0''), (''bump'', VRef 1)] =
     [(''integral'', VBool True), (''releaseVersion'', VStr ''1.1.0''), (''bump'', VRef 1)]"
proof -
  let ?d = "\<lparr>bd_options = pickExample exampleOptions, bd_head = ''abc123'',
                      bd_state = [(''old-pkg'', VRef 3), (''expo-av'', VRef 2)]\<rparr>"
  let ?r = "restoreBackup exampleGetNode exampleGetCachedParcel exampleBackup [0] exampleWorld"
  have d: "data exampleBackup = Present ?d" by (simp add: exampleBackup_def)
  have res: "resolved exampleGetNode exampleGetCachedParcel [(''old-pkg'', VRef 3), (''expo-av'', VRef 2)] =
     [(0, VRef 2)]"
    by (simp add: exampleGetNode_def exampleGetCachedParcel_def)
  have dist: "distinct (map fst (resolved exampleGetNode exampleGetCachedParcel (bd_state ?d)))"
    using res by simp
  have m: "(''expo-av'', VRef 2) \<in> set (bd_state ?d)" by simp
  have g: "exampleGetNode ''expo-av'' = Some ''expo-av''" by (simp add: exampleGetNode_def)
  have c: "exampleGetCachedParcel ''expo-av'' = 0" by (simp add: exampleGetCachedParcel_def)
  have wf: "wf_heap (w_heap exampleWorld)" using exampleHeap_wf by (simp add: exampleWorld_fields)
  have ok1: "\<forall>(m, rs) \<in> set (bd_state ?d). val_ok (length (w_heap exampleWorld)) rs"
    by (simp add: exampleWorld_fields exampleHeap_def)
  have ok2: "\<forall>q. val_ok (length (w_heap exampleWorld)) (state (w_parcels exampleWorld q))"
    by (simp add: exampleWorld_fields exampleParcelStore_ok)
  have st: "state (w_parcels exampleWorld 0) = VRef 0"
    by (simp add: exampleWorld_fields exampleParcelStore_at)
  have h0: "w_heap exampleWorld ! 0 = Object [(''integral'', VBool True)]"
    and h2: "w_heap exampleWorld ! 2 = Object [(''releaseVersion'', VStr ''1.1.0''), (''bump'', VRef 1)]"
    by (simp_all add: exampleWorld_fields exampleHeap_def)
  from restoreBackup_merges_state
         [where backup = exampleBackup and d = ?d and name = "''expo-av''" and rs = "VRef 2"
            and getNode = exampleGetNode and node = "''expo-av''"
            and getCachedParcel = exampleGetCachedParcel and parcels = "[0]" and w = exampleWorld,
          OF d dist wf ok1 ok2 m g]
  obtain w' a where r: "?r = (Inr ([0] @ map fst (resolved exampleGetNode exampleGetCachedParcel (bd_state ?d))), w')"
    and s: "w_parcels w' (exampleGetCachedParcel ''expo-av'') =
            (w_parcels exampleWorld (exampleGetCachedParcel ''expo-av''))\<lparr>state := VRef a\<rparr>"
    and mg: "\<forall>sa dps ra rps.
              state (w_parcels exampleWorld (exampleGetCachedParcel ''expo-av'')) = VRef sa \<and>
              w_heap exampleWorld ! sa = Object dps \<and>
              VRef 2 = VRef ra \<and> w_heap exampleWorld ! ra = Object rps \<longrightarrow>
                w_heap w' ! a = Object (assign_props (assign_props [] dps) rps)"
    by blast
  from mg st h0 h2 c have cell: "w_heap w' ! a =
      Object (assign_props (assign_props [] [(''integral'', VBool True)])
                [(''releaseVersion'', VStr ''1.1.0''), (''bump'', VRef 1)])"
    by simp
  from r have w': "w' = snd ?r" by simp
  from s c exampleRestore(3) have a: "a = 7" unfolding w'
    by (simp add: exampleWorld_fields exampleParcelStore_at)
  from cell exampleRestore(2) have mgd: "assign_props (assign_props [] [(''integral'', VBool True)])
       [(''releaseVersion'', VStr ''1.1.0''), (''bump'', VRef 1)] =
     [(''integral'', VBool True), (''releaseVersion'', VStr ''1.1.0''), (''bump'', VRef 1)]"
    unfolding w' a by (simp add: exampleHeap_def)
  have cell7: "w_heap (snd ?r) ! 7 =
     Object [(''integral'', VBool True), (''releaseVersion'', VStr ''1.1.0''), (''bump'', VRef 1)]"
    using exampleRestore(2) by (simp add: exampleHeap_def)
  from d res g c wf st h0 h2 exampleRestore(1) exampleRestore(3) cell7 mgd show ?thesis
    by (simp only: simp_thms)
qed

section \<open>What a backup shares with the live state\<close>




section \<open>The options object\<close>

text \<open>
  C7 (the options of a run do not change). \<^verbatim>\<open>main\<close> completes the options object with the
  package names as its first statement, before it selects the tasks and builds the task
  runner. From there on the object stays as it is: no call of \<^verbatim>\<open>validateBackup\<close>,
  \<^verbatim>\<open>shouldUseBackup\<close>, \<^verbatim>\<open>createBackupData\<close>, \<^verbatim>\<open>restoreBackup\<close> or \<^verbatim>\<open>backupValidationFailed\<close>
  changes any field of it, so at every point of the run, whatever the task runner calls
  and in whatever order, the options are the ones \<^verbatim>\<open>main\<close> handed over. The helper
  \<^verbatim>\<open>shouldUseBackupAsync\<close> and the tasks are given the object and are not part of this
  command's file; they are taken not to write to it.
\<close>

theorem options_fixed_during_run:
  assumes "\<forall>opts w. w_options (snd (shouldUseBackupAsync opts w)) = w_options w"
    and "\<forall>task parcels opts w. w_options (runTask task parcels opts w) = w_options w"
  shows "(\<forall>c w. w_options (invoke pick diff shouldUseBackupAsync getNode getCachedParcel runTask c w) =
            w_options w) \<and>
         (\<forall>n. w_options (main pick diff shouldUseBackupAsync getNode getCachedParcel runTask
                          (\<lambda>tasks. take n (runner tasks)) names w) =
            (w_options w)\<lparr>packageNames := Some names\<rparr>) \<and>
         w_options (main pick diff shouldUseBackupAsync getNode getCachedParcel runTask runner names w) =
            (w_options w)\<lparr>packageNames := Some names\<rparr>"
  by (simp add: main_def Let_def invoke_options[OF assms] invocations_options[OF assms])

theorem options_fixed_during_run_witness:
  "w_options (snd (exampleShouldUseBackupAsync exampleOptions exampleWorld)) = w_options exampleWorld \<and>
   w_options (exampleRunTask Task_publishPackagesPipeline [0] exampleOptions exampleWorld) =
     w_options exampleWorld \<and>
   packageNames commanderOptions = None \<and>
   commanderOptions\<lparr>packageNames := Some [''expo-av'']\<rparr> = exampleOptions \<and>
   w_options (main pickExample structuralDiff exampleShouldUseBackupAsync exampleGetNode
                exampleGetCachedParcel exampleRunTask exampleRunner [''expo-av'']
                (exampleWorld\<lparr>w_options := commanderOptions\<rparr>)) = exampleOptions \<and>
   w_options (main pickExample structuralDiff exampleShouldUseBackupAsync exampleGetNode
                exampleGetCachedParcel exampleRunTask rejectingRunner [''expo-av'']
                (exampleWorld\<lparr>w_options := commanderOptions\<rparr>)) = exampleOptions \<and>
   w_log (main pickExample structuralDiff exampleShouldUseBackupAsync exampleGetNode
            exampleGetCachedParcel exampleRunTask rejectingRunner [''expo-av'']
            (exampleWorld\<lparr>w_options := commanderOptions\<rparr>)) = [Warn FoundBackupWithDifferentOptions] \<and>
   w_options (invoke pickExample structuralDiff exampleShouldUseBackupAsync exampleGetNode
                exampleGetCachedParcel exampleRunTask (Call_restoreBackup exampleBackup [0]) exampleWorld) =
     exampleOptions"
proof -
  have a1: "\<forall>opts w. w_options (snd (exampleShouldUseBackupAsync opts w)) = w_options w"
    by (simp add: exampleShouldUseBackupAsync_def)
  have a2: "\<forall>task parcels opts w. w_options (exampleRunTask task parcels opts w) = w_options w"
    by (simp add: exampleRunTask_def)
  have c: "packageNames commanderOptions = None"
    "commanderOptions\<lparr>packageNames := Some [''expo-av'']\<rparr> = exampleOptions"
    by (simp_all add: commanderOptions_def exampleOptions_def)
  have l: "w_log (main pickExample structuralDiff exampleShouldUseBackupAsync exampleGetNode
            exampleGetCachedParcel exampleRunTask rejectingRunner [''expo-av'']
            (exampleWorld\<lparr>w_options := commanderOptions\<rparr>)) = [Warn FoundBackupWithDifferentOptions]"
    by (simp add: main_def Let_def rejectingRunner_def validateBackup_world backupValidationFailed_def
        exampleRunTask_def exampleWorld_fields)
  note t = options_fixed_during_run
      [where shouldUseBackupAsync = exampleShouldUseBackupAsync and runTask = exampleRunTask
         and pick = pickExample and diff = structuralDiff and getNode = exampleGetNode
         and getCachedParcel = exampleGetCachedParcel and names = "[''expo-av'']"
         and w = "exampleWorld\<lparr>w_options := commanderOptions\<rparr>", OF a1 a2]
  from t[where runner = exampleRunner]
  have r1: "w_options (main pickExample structuralDiff exampleShouldUseBackupAsync exampleGetNode
                exampleGetCachedParcel exampleRunTask exampleRunner [''expo-av'']
                (exampleWorld\<lparr>w_options := commanderOptions\<rparr>)) = exampleOptions"
    using c by simp
  from t[where runner = exampleRunner, THEN conjunct1, THEN spec, THEN spec,
         of "Call_restoreBackup exampleBackup [0]" exampleWorld]
  have r3: "w_options (invoke pickExample structuralDiff exampleShouldUseBackupAsync exampleGetNode
                exampleGetCachedParcel exampleRunTask (Call_restoreBackup exampleBackup [0]) exampleWorld) =
     exampleOptions"
    by (simp only: exampleWorld_fields)
  from t[where runner = rejectingRunner]
  have r2: "w_options (main pickExample structuralDiff exampleShouldUseBackupAsync exampleGetNode
                exampleGetCachedParcel exampleRunTask rejectingRunner [''expo-av'']
                (exampleWorld\<lparr>w_options := commanderOptions\<rparr>)) = exampleOptions"
    using c by simp
  from a1 a2 have a: "w_options (snd (exampleShouldUseBackupAsync exampleOptions exampleWorld)) =
      w_options exampleWorld"
    "w_options (exampleRunTask Task_publishPackagesPipeline [0] exampleOptions exampleWorld) =
     w_options exampleWorld" by simp_all
  from a c r1 r2 l r3 show ?thesis by (simp only: simp_thms)
qed

end
